theory Spec2Isabelle
  imports Main "HOL-Library.Word"
begin

section \<open>Errors\<close>

text \<open>
  Go errors as values. The sentinels of package httpclient and of package context are
  constants; \<open>DNSError msg nf\<close> is a \<open>*net.DNSError\<close> with its message and its
  \<open>IsNotFound\<close> flag; \<open>errors_New s\<close> is an unwrapped error with text \<open>s\<close>;
  \<open>fmt_Errorf pre e suf\<close> is an error that wraps \<open>e\<close> and prints it between \<open>pre\<close> and
  \<open>suf\<close> (\<open>fmt.Errorf\<close> with the verb \<open>%w\<close>, and \<open>*url.Error\<close>, \<open>*net.OpError\<close>);
  \<open>SetNotFound e\<close> is \<open>gtserror.SetNotFound(e)\<close>.
\<close>

text \<open>
  Modelled from the spec: \<open>gtserror.SetNotFound\<close>, whose source is not at hand. The
  specification calls its result a distinct "not found" classification of the error: it
  is a constructor of its own, which wraps the error and keeps its text.
\<close>

datatype error =
    DeadlineExceeded
  | Canceled
  | ErrInvalidRequest
  | ErrInvalidNetwork
  | ErrReservedAddr
  | ErrBodyTooLarge
  | DNSError string bool
  | errors_New string
  | fmt_Errorf string error string
  | SetNotFound error

text \<open>The method \<open>Error()\<close>: the text of an error.\<close>

fun Error :: "error \<Rightarrow> string" where
  "Error DeadlineExceeded = ''context deadline exceeded''"
| "Error Canceled = ''context canceled''"
| "Error ErrInvalidRequest = ''invalid http request''"
| "Error ErrInvalidNetwork = ''invalid network type''"
| "Error ErrReservedAddr = ''dial within blocked / reserved IP range''"
| "Error ErrBodyTooLarge = ''body size too large''"
| "Error (DNSError msg nf) = msg"
| "Error (errors_New s) = s"
| "Error (fmt_Errorf pre e suf) = pre @ Error e @ suf"
| "Error (SetNotFound e) = Error e"

text \<open>The chain that \<open>Unwrap()\<close> walks, the error itself first.\<close>

fun chain :: "error \<Rightarrow> error list" where
  "chain (fmt_Errorf pre e suf) = fmt_Errorf pre e suf # chain e"
| "chain (SetNotFound e) = SetNotFound e # chain e"
| "chain e = [e]"

text \<open>\<open>errorsv2.IsV2(err, targets...)\<close>: some error of the chain is one of the targets.\<close>

definition IsV2 :: "error \<Rightarrow> error list \<Rightarrow> bool" where
  "IsV2 err targets = list_ex (\<lambda>e. e \<in> set targets) (chain err)"

text \<open>\<open>errors.As(err, &dnserr)\<close>: the first \<open>*net.DNSError\<close> of the chain, if any,
  given by its \<open>IsNotFound\<close> flag.\<close>

fun As_DNSError :: "error list \<Rightarrow> bool option" where
  "As_DNSError [] = None"
| "As_DNSError (DNSError msg nf # es) = Some nf"
| "As_DNSError (e # es) = As_DNSError es"

section \<open>Strings\<close>

fun HasPrefix :: "string \<Rightarrow> string \<Rightarrow> bool" where
  "HasPrefix s [] = True"
| "HasPrefix [] (p # ps) = False"
| "HasPrefix (c # s) (p # ps) = (c = p \<and> HasPrefix s ps)"

text \<open>\<open>strings.Contains(s, substr)\<close>.\<close>

fun Contains :: "string \<Rightarrow> string \<Rightarrow> bool" where
  "Contains [] substr = (substr = [])"
| "Contains (c # s) substr = (HasPrefix (c # s) substr \<or> Contains s substr)"

definition digit :: "char \<Rightarrow> int option" where
  "digit c = map_of [(CHR ''0'', 0), (CHR ''1'', 1), (CHR ''2'', 2), (CHR ''3'', 3),
     (CHR ''4'', 4), (CHR ''5'', 5), (CHR ''6'', 6), (CHR ''7'', 7), (CHR ''8'', 8),
     (CHR ''9'', 9)] c"

definition maxVal :: int where
  "maxVal = 2 ^ 32 - 1"

text \<open>
  \<open>strconv.ParseUint(s, 10, 32)\<close> with its error dropped, as \<open>DoSigned\<close> calls it: the
  bytes are read from the left; a byte that is no decimal digit ends the parse with 0
  (syntax error), a value above \<open>2^32 - 1\<close> ends it with \<open>2^32 - 1\<close> (range error). The
  empty string is a syntax error.
\<close>

fun ParseUint_from :: "int \<Rightarrow> string \<Rightarrow> int" where
  "ParseUint_from n [] = n"
| "ParseUint_from n (c # cs) =
     (case digit c of
        None \<Rightarrow> 0
      | Some d \<Rightarrow>
          (let n1 = n * 10 + d
           in if n1 > maxVal then maxVal else ParseUint_from n1 cs))"

definition ParseUint :: "string \<Rightarrow> int" where
  "ParseUint s = (if s = [] then 0 else ParseUint_from 0 s)"

section \<open>Body streams\<close>

type_synonym byte = "8 word"

text \<open>The body of a response as the transport hands it over: the bytes not read yet,
  and whether \<open>Close()\<close> was called.\<close>

record stream =
  unread :: "byte list"
  closed :: bool

datatype read_error = EOF | ErrReadAfterClose

text \<open>One \<open>Read(p)\<close> with \<open>len(p) = k\<close>.\<close>

definition stream_Read :: "stream \<Rightarrow> nat \<Rightarrow> byte list \<times> read_error option \<times> stream" where
  "stream_Read s k =
     (if closed s then ([], Some ErrReadAfterClose, s)
      else if unread s = [] then ([], Some EOF, s)
      else (take k (unread s), None, s\<lparr>unread := drop k (unread s)\<rparr>))"

text \<open>
  The body that \<open>do\<close> installs: \<open>io.LimitReader(rbody, limit)\<close> as the reader, with
  \<open>limit_N\<close> the bytes it may still deliver, over the stream \<open>limit_R\<close>, which is also
  what the closer closes.
\<close>

record limited =
  limit_N :: int
  limit_R :: stream

text \<open>\<open>(*io.LimitedReader).Read\<close>.\<close>

definition limited_Read :: "limited \<Rightarrow> nat \<Rightarrow> byte list \<times> read_error option \<times> limited" where
  "limited_Read l k =
     (if limit_N l \<le> 0 then ([], Some EOF, l)
      else
        (let k' = (if int k > limit_N l then nat (limit_N l) else k);
             (bs, err, s) = stream_Read (limit_R l) k'
         in (bs, err, \<lparr>limit_N = limit_N l - int (length bs), limit_R = s\<rparr>)))"

text \<open>
  Reading to the end, 512 bytes at a time, as \<open>io.ReadAll\<close> does: the bytes read are
  appended to \<open>acc\<close>; \<open>EOF\<close> ends the read normally, another error is returned.
  \<open>discard.ReadFrom(rbody)\<close> is the same loop with the bytes dropped.
\<close>

function ReadAll :: "limited \<Rightarrow> byte list \<Rightarrow> byte list \<times> read_error option \<times> limited" where
  "ReadAll l acc =
     (let (bs, err, l') = limited_Read l 512
      in case err of
           None \<Rightarrow> ReadAll l' (acc @ bs)
         | Some EOF \<Rightarrow> (acc @ bs, None, l')
         | Some e \<Rightarrow> (acc @ bs, Some e, l'))"
  by pat_completeness auto
termination
  by (relation "measure (\<lambda>(l, acc). length (unread (limit_R l)))")
     (auto simp: limited_Read_def stream_Read_def Let_def split: if_splits)

declare ReadAll.simps [simp del]

text \<open>
  \<open>Close()\<close> of the installed body: the closer made by \<open>iotools.CloserAfterCallback\<close>
  first runs the callback, which drains the limited reader, and then closes the stream.
\<close>

definition limited_Close :: "limited \<Rightarrow> limited" where
  "limited_Close l =
     (let (bs, err, l') = ReadAll l []
      in l'\<lparr>limit_R := (limit_R l')\<lparr>closed := True\<rparr>\<rparr>)"

section \<open>Requests, responses and the client\<close>

text \<open>
  The fields of \<open>*http.Request\<close> that \<open>DoSigned\<close> and a signer touch. \<open>Hostname\<close> is
  \<open>r.URL.Hostname()\<close>, \<open>IsFastfail\<close> is \<open>gtscontext.IsFastfail(r.Context())\<close>.
\<close>

record request =
  Method :: string
  URL :: string
  Hostname :: string
  IsFastfail :: bool
  ReqHeader :: "string \<rightharpoonup> string"

text \<open>\<open>*http.Response\<close>, with the type of its body as a parameter: a \<open>stream\<close> as
  the transport returns it, a \<open>limited\<close> body once \<open>do\<close> has wrapped it.\<close>

record 'b response =
  StatusCode :: int
  Status :: string
  Header :: "string \<rightharpoonup> string"
  ContentLength :: int
  Body :: 'b

text \<open>The assignment \<open>rsp.Body = ...\<close>: every other field stays.\<close>

definition with_Body :: "'a response \<Rightarrow> 'b \<Rightarrow> 'b response" where
  "with_Body rsp b =
     \<lparr>StatusCode = StatusCode rsp, Status = Status rsp, Header = Header rsp,
      ContentLength = ContentLength rsp, Body = b\<rparr>"

text \<open>\<open>Header.Get(key)\<close>: the empty string when the header is absent.\<close>

definition Header_Get :: "(string \<rightharpoonup> string) \<Rightarrow> string \<Rightarrow> string" where
  "Header_Get h key = (case h key of None \<Rightarrow> [] | Some v \<Rightarrow> v)"

type_synonym SignFunc = "request \<Rightarrow> request \<times> error option"

text \<open>
  What surrounds a call and is not in the client. \<open>ValidateRequest\<close> and the signing
  transport are functions of the package whose sources are not at hand: both are
  parameters here, \<open>ValidateRequest\<close> by its return value (\<open>None\<close> for nil), the
  transport by \<open>RoundTrip n r\<close>, the result of the \<open>n\<close>-th \<open>c.client.Do(r)\<close> of the
  call, counted from 0, which may depend on every field of the request it is given;
  \<open>Now i\<close>, the value of \<open>time.Now()\<close> in iteration \<open>i\<close>, and \<open>ParseTime\<close>, the value
  of \<open>http.ParseTime\<close> with its error dropped, both in nanoseconds; \<open>Done i\<close>, whether
  the request context is done before the timer of iteration \<open>i\<close> fires, with
  \<open>r.Context().Err()\<close>.
\<close>

record env =
  ValidateRequest :: "request \<Rightarrow> error option"
  RoundTrip :: "nat \<Rightarrow> request \<Rightarrow> error + stream response"
  Now :: "nat \<Rightarrow> int"
  ParseTime :: "string \<Rightarrow> int"
  Done :: "nat \<Rightarrow> error option"

text \<open>
  The TTL cache of bad hosts (\<open>cache.TTLCache\<close> of go-cache), as the list of the hosts
  written to it, the latest first: \<open>Set\<close> of a host that is present is still a write,
  since it restarts the entry's time to live. The sweep that drops old entries runs
  beside the calls and is not part of a call.
\<close>

type_synonym cache = "string list"

definition cache_Has :: "cache \<Rightarrow> string \<Rightarrow> bool" where
  "cache_Has ch host = (host \<in> set ch)"

definition cache_Set :: "cache \<Rightarrow> string \<Rightarrow> cache" where
  "cache_Set ch host = host # ch"

text \<open>Of \<open>Config\<close>, the field that reaches a field of the client; the others configure
  the transport and the dialer.\<close>

record Config =
  MaxBodySize :: int

record Client =
  badHosts :: cache
  bodyMax :: int

definition MiB :: int where
  "MiB = 1048576"

definition New :: "Config \<Rightarrow> Client" where
  "New cfg =
     \<lparr>badHosts = [],
      bodyMax = (if MaxBodySize cfg \<le> 0 then 512 * MiB else MaxBodySize cfg)\<rparr>"

text \<open>
  What a call does besides returning: the number of round trips made, the durations
  given to \<open>time.After\<close> in order, and the bodies the client closed, as \<open>Close()\<close>
  left them, in order.
\<close>

record effects =
  attempts :: nat
  waits :: "int list"
  released :: "limited list"

definition no_effects :: effects where
  "no_effects = \<lparr>attempts = 0, waits = [], released = []\<rparr>"

section \<open>do\<close>

definition do :: "Client \<Rightarrow> env \<Rightarrow> request \<Rightarrow> effects \<Rightarrow> (error + limited response) \<times> effects" where
  "do c env req fx =
     (let fx1 = fx\<lparr>attempts := attempts fx + 1\<rparr>
      in case RoundTrip env (attempts fx) req of
           Inl err \<Rightarrow> (Inl err, fx1)
         | Inr rsp \<Rightarrow>
             (let limit = (if ContentLength rsp < 0 then bodyMax c else ContentLength rsp);
                  body = \<lparr>limit_N = limit, limit_R = Body rsp\<rparr>;
                  rsp' = with_Body rsp body
              in if ContentLength rsp' > bodyMax c
                 then (Inl ErrBodyTooLarge, fx1\<lparr>released := released fx1 @ [limited_Close body]\<rparr>)
                 else (Inr rsp', fx1)))"

section \<open>DoSigned\<close>

definition maxRetries :: nat where
  "maxRetries = 5"

text \<open>\<open>time.Duration\<close> counts nanoseconds in an \<open>int64\<close>. The durations computed
  below stay under \<open>2^63\<close>: the largest product is \<open>(2^32 - 1) * Second\<close>.\<close>

definition Second :: int where
  "Second = 1000000000"

definition baseBackoff :: int where
  "baseBackoff = 2 * Second"

definition StatusTooManyRequests :: int where
  "StatusTooManyRequests = 429"

definition maxDuration :: int where
  "maxDuration = 2 ^ 63 - 1"

definition minDuration :: int where
  "minDuration = - (2 ^ 63)"

text \<open>\<open>t.Sub(u)\<close>: the difference, kept inside the range of a duration.\<close>

definition Sub :: "int \<Rightarrow> int \<Rightarrow> int" where
  "Sub t u =
     (let d = t - u
      in if d > maxDuration then maxDuration else if d < minDuration then minDuration else d)"

text \<open>The backoff read from a non-empty \<open>Retry-After\<close> value \<open>after\<close> (the body of
  the \<open>if after := ...; after != ""\<close> of \<open>DoSigned\<close>).\<close>

definition retry_after :: "env \<Rightarrow> nat \<Rightarrow> string \<Rightarrow> int" where
  "retry_after env i after =
     (let now = Now env i;
          u = ParseUint after;
          backoff =
            (if u \<noteq> 0 then u * Second
             else (let at = ParseTime env after
                   in if \<not> at < now then Sub at now else 0))
      in if backoff > baseBackoff * int maxRetries then baseBackoff * int maxRetries
         else backoff)"

text \<open>One pass through the body of the loop either returns from \<open>DoSigned\<close> or goes
  on to the next one, with the value of the named result \<open>rsp\<close>.\<close>

datatype step =
    Return "limited response option" "error option"
  | Next "limited response option"

text \<open>The end of the loop body, from \<open>if fastFail\<close> on: fail fast, or set the backoff
  and wait for the timer or for the request context.\<close>

definition backoff_wait ::
  "env \<Rightarrow> bool \<Rightarrow> nat \<Rightarrow> limited response option \<Rightarrow> error \<Rightarrow> int \<Rightarrow> effects
    \<Rightarrow> step \<times> effects" where
  "backoff_wait env fastFail i rsp err backoff fx =
     (if fastFail then (Return None (Some (fmt_Errorf [] err '' (fast fail)'')), fx)
      else
        (let backoff' = (if backoff = 0 then baseBackoff * 1 * 2 ^ (i + 1) else backoff);
             fx' = fx\<lparr>waits := waits fx @ [backoff']\<rparr>
         in case Done env i of
              Some cerr \<Rightarrow> (Return None (Some cerr), fx')
            | None \<Rightarrow> (Next rsp, fx')))"

text \<open>The body of the loop for the index \<open>i\<close>.\<close>

definition iteration ::
  "Client \<Rightarrow> env \<Rightarrow> request \<Rightarrow> bool \<Rightarrow> nat \<Rightarrow> effects \<Rightarrow> step \<times> effects" where
  "iteration c env r fastFail i fx =
     (case do c env r fx of
        (Inr rsp, fx1) \<Rightarrow>
          if StatusCode rsp < 500 \<and> StatusCode rsp \<noteq> StatusTooManyRequests
          then (Return (Some rsp) None, fx1)
          else
            (let err = errors_New (''http response: '' @ Status rsp);
                 after = Header_Get (Header rsp) ''Retry-After'';
                 backoff = (if after \<noteq> [] then retry_after env i after else 0);
                 fx2 = fx1\<lparr>released := released fx1 @ [limited_Close (Body rsp)]\<rparr>
             in backoff_wait env fastFail i None err backoff fx2)
      | (Inl err, fx1) \<Rightarrow>
          if IsV2 err [DeadlineExceeded, Canceled, ErrBodyTooLarge, ErrReservedAddr]
          then (Return None (Some err), fx1)
          else if Contains (Error err) ''stopped after 10 redirects''
                  \<or> Contains (Error err) ''tls: ''
                  \<or> Contains (Error err) ''x509: ''
          then (Return None (Some err), fx1)
          else if As_DNSError (chain err) = Some True
          then (Return None (Some (SetNotFound err)), fx1)
          else backoff_wait env fastFail i None err 0 fx1)"

function loop ::
  "Client \<Rightarrow> env \<Rightarrow> request \<Rightarrow> bool \<Rightarrow> nat \<Rightarrow> limited response option \<Rightarrow> effects
    \<Rightarrow> (limited response option \<times> error option) \<times> effects" where
  "loop c env r fastFail i rsp fx =
     (if i < maxRetries then
        (case iteration c env r fastFail i fx of
           (Return rsp' err, fx') \<Rightarrow> ((rsp', err), fx')
         | (Next rsp', fx') \<Rightarrow> loop c env r fastFail (i + 1) rsp' fx')
      else ((rsp, Some (errors_New ''transport reached max retries'')), fx))"
  by pat_completeness auto
termination
  by (relation "measure (\<lambda>(c, env, r, fastFail, i, rsp, fx). maxRetries - i)") auto

declare loop.simps [simp del]

text \<open>
  \<open>DoSigned\<close> returns its two results, and with them the client after the deferred
  write to the cache and the effects of the call. The deferred function is registered
  only when the request context does not ask to fail fast, before the cache is read.
\<close>

definition DoSigned ::
  "Client \<Rightarrow> env \<Rightarrow> request \<Rightarrow> SignFunc
    \<Rightarrow> (limited response option \<times> error option) \<times> Client \<times> effects" where
  "DoSigned c env r sign =
     (case ValidateRequest env r of
        Some err \<Rightarrow> ((None, Some err), c, no_effects)
      | None \<Rightarrow>
          (let host = Hostname r;
               ctxFastfail = IsFastfail r;
               fastFail = (if \<not> ctxFastfail then cache_Has (badHosts c) host else ctxFastfail);
               ((rsp, err), fx) = loop c env r fastFail 0 None no_effects;
               c' = (if \<not> ctxFastfail \<and> err \<noteq> None
                     then c\<lparr>badHosts := cache_Set (badHosts c) host\<rparr> else c)
           in ((rsp, err), c', fx)))"

definition Do :: "Client \<Rightarrow> env \<Rightarrow> request
    \<Rightarrow> (limited response option \<times> error option) \<times> Client \<times> effects" where
  "Do c env r = DoSigned c env r (\<lambda>r. (r, None))"

text \<open>
  The outcomes of a round trip after which the loop body reaches \<open>if fastFail\<close>: a
  response that \<open>do\<close> lets through with a status of 500 or more, or 429, or an error
  that none of the three tests for unrecoverable errors matches. \<open>hint\<close> is the value
  of the \<open>Retry-After\<close> header that comes with it.
\<close>

definition retryable :: "Client \<Rightarrow> error + stream response \<Rightarrow> bool" where
  "retryable c res =
     (case res of
        Inr raw \<Rightarrow> \<not> ContentLength raw > bodyMax c
          \<and> \<not> (StatusCode raw < 500 \<and> StatusCode raw \<noteq> StatusTooManyRequests)
      | Inl err \<Rightarrow> \<not> IsV2 err [DeadlineExceeded, Canceled, ErrBodyTooLarge, ErrReservedAddr]
          \<and> \<not> (Contains (Error err) ''stopped after 10 redirects''
                  \<or> Contains (Error err) ''tls: ''
                  \<or> Contains (Error err) ''x509: '')
          \<and> \<not> As_DNSError (chain err) = Some True)"

definition hint :: "error + stream response \<Rightarrow> string" where
  "hint res = (case res of Inr raw \<Rightarrow> Header_Get (Header raw) ''Retry-After'' | Inl err \<Rightarrow> [])"

text \<open>What \<open>c.do(r)\<close> returns when it makes the \<open>j\<close>-th round trip of a call.\<close>

definition outcome :: "Client \<Rightarrow> env \<Rightarrow> request \<Rightarrow> nat \<Rightarrow> error + limited response" where
  "outcome c env r j = fst (do c env r (no_effects\<lparr>attempts := j\<rparr>))"

section \<open>Example inputs\<close>

definition ex_req :: request where
  "ex_req = \<lparr>Method = ''GET'', URL = ''https://example.org/users/1'',
      Hostname = ''example.org'', IsFastfail = False, ReqHeader = Map.empty\<rparr>"

definition ex_req_fastfail :: request where
  "ex_req_fastfail = ex_req\<lparr>IsFastfail := True\<rparr>"

definition ex_client :: Client where
  "ex_client = New \<lparr>MaxBodySize = 4\<rparr>"

definition ex_client_bad_host :: Client where
  "ex_client_bad_host = ex_client\<lparr>badHosts := [''example.org'']\<rparr>"

definition ex_rsp :: "int \<Rightarrow> string \<Rightarrow> (string \<rightharpoonup> string) \<Rightarrow> int \<Rightarrow> byte list \<Rightarrow> stream response" where
  "ex_rsp code status hdr len bytes =
     \<lparr>StatusCode = code, Status = status, Header = hdr, ContentLength = len,
      Body = \<lparr>unread = bytes, closed = False\<rparr>\<rparr>"

definition ex_200 :: "stream response" where
  "ex_200 = ex_rsp 200 ''200 OK'' Map.empty 2 [104, 105]"

definition ex_200_big :: "stream response" where
  "ex_200_big = ex_rsp 200 ''200 OK'' Map.empty 6 [1, 2, 3, 4, 5, 6]"

definition ex_200_unknown :: "stream response" where
  "ex_200_unknown = ex_rsp 200 ''200 OK'' Map.empty (- 1) [1, 2, 3, 4, 5, 6]"

definition ex_401 :: "stream response" where
  "ex_401 = ex_rsp 401 ''401 Unauthorized'' Map.empty 0 []"

definition ex_503 :: "string \<Rightarrow> stream response" where
  "ex_503 after =
     ex_rsp 503 ''503 Service Unavailable''
       (if after = [] then Map.empty else [''Retry-After'' \<mapsto> after]) 2 [1, 2]"

definition ex_past_date :: string where
  "ex_past_date = ''Wed, 21 Oct 2015 07:28:00 GMT''"

text \<open>An environment with a valid request, a clock at 2023-11-14 22:13:20 UTC (in
  nanoseconds since 1970), a context that is never done, and a date parser that knows
  \<open>ex_past_date\<close> and gives Go's zero time for everything else.\<close>

definition ex_env :: "(nat \<Rightarrow> request \<Rightarrow> error + stream response) \<Rightarrow> env" where
  "ex_env rt =
     \<lparr>ValidateRequest = (\<lambda>r. None), RoundTrip = rt,
      Now = (\<lambda>i. 1700000000 * Second),
      ParseTime = (\<lambda>s. if s = ex_past_date then 1445412480 * Second
                         else - 62135596800 * Second),
      Done = (\<lambda>i. None)\<rparr>"

text \<open>A lookup of a host that does not exist, and a failed TLS handshake as
  \<open>c.client.Do\<close> returns it, wrapped in a \<open>*url.Error\<close>.\<close>

definition ex_dns_not_found :: error where
  "ex_dns_not_found = DNSError ''lookup example.org: no such host'' True"


text \<open>A signer that sets the \<open>Signature\<close> header, and a server that answers 401 to a
  request without one.\<close>

definition ex_sign :: SignFunc where
  "ex_sign r = (r\<lparr>ReqHeader := (ReqHeader r)(''Signature'' \<mapsto> ''keyId=...'')\<rparr>, None)"

definition ex_needs_signature :: "nat \<Rightarrow> request \<Rightarrow> error + stream response" where
  "ex_needs_signature n r =
     (if ReqHeader r ''Signature'' = None then Inr ex_401 else Inr ex_200)"

section \<open>Reading and closing a limited body\<close>

lemma ReadAll_open:
  "\<not> closed (limit_R l) \<Longrightarrow>
   ReadAll l acc =
     (acc @ take (nat (limit_N l)) (unread (limit_R l)), None,
      \<lparr>limit_N = limit_N l - int (min (nat (limit_N l)) (length (unread (limit_R l)))),
       limit_R = (limit_R l)\<lparr>unread := drop (nat (limit_N l)) (unread (limit_R l))\<rparr>\<rparr>)"
proof (induction l acc rule: ReadAll.induct)
  case (1 l acc)
  show ?case
  proof (cases "limit_N l \<le> 0 \<or> unread (limit_R l) = []")
    case True
    then show ?thesis
      using "1.prems"
      by (subst ReadAll.simps) (auto simp: limited_Read_def stream_Read_def Let_def)
  next
    case False
    define k where "k = (if 512 > limit_N l then nat (limit_N l) else 512)"
    define l' where "l' = \<lparr>limit_N = limit_N l - int (length (take k (unread (limit_R l)))),
        limit_R = (limit_R l)\<lparr>unread := drop k (unread (limit_R l))\<rparr>\<rparr>"
    have rd: "limited_Read l 512 = (take k (unread (limit_R l)), None, l')"
      using False "1.prems" by (simp add: limited_Read_def stream_Read_def Let_def k_def l'_def)
    have op: "\<not> closed (limit_R l')" using "1.prems" by (simp add: l'_def)
    have kl: "k \<le> nat (limit_N l)" by (auto simp: k_def)
    have IH: "ReadAll l' (acc @ take k (unread (limit_R l))) =
       ((acc @ take k (unread (limit_R l))) @ take (nat (limit_N l')) (unread (limit_R l')), None,
      \<lparr>limit_N = limit_N l' - int (min (nat (limit_N l')) (length (unread (limit_R l')))),
       limit_R = (limit_R l')\<lparr>unread := drop (nat (limit_N l')) (unread (limit_R l'))\<rparr>\<rparr>)"
      using "1.IH"[OF rd[symmetric] refl refl refl op] .
    have step: "ReadAll l acc = ReadAll l' (acc @ take k (unread (limit_R l)))"
      by (subst ReadAll.simps) (simp add: rd)
    show ?thesis
    proof (cases "k \<le> length (unread (limit_R l))")
      case True
      have t: "take k (unread (limit_R l)) @ take (nat (limit_N l) - k) (drop k (unread (limit_R l)))
          = take (nat (limit_N l)) (unread (limit_R l))"
        using kl by (metis le_add_diff_inverse take_add)
      have n: "nat (limit_N l - int k) = nat (limit_N l) - k" by simp
      show ?thesis unfolding step IH using True kl t
        by (auto simp: l'_def n min_def)
    next
      case False
      then show ?thesis unfolding step IH using kl
        by (auto simp: l'_def min_def)
    qed
  qed
qed


lemma limited_Close_open:
  "\<not> closed (limit_R l) \<Longrightarrow>
   limited_Close l =
     \<lparr>limit_N = limit_N l - int (min (nat (limit_N l)) (length (unread (limit_R l)))),
      limit_R = (limit_R l)\<lparr>unread := drop (nat (limit_N l)) (unread (limit_R l)),
                            closed := True\<rparr>\<rparr>"
  by (simp add: limited_Close_def ReadAll_open)

section \<open>The loop, one pass at a time\<close>

lemmas iteration_defs = iteration_def do_def backoff_wait_def Let_def

lemma iteration_attempts:
  "iteration c env r ff i fx = (st, fx') \<Longrightarrow> attempts fx' = attempts fx + 1"
  by (auto simp: iteration_defs split: sum.splits if_splits option.splits prod.splits)

lemma iteration_waits:
  "iteration c env r ff i fx = (st, fx') \<Longrightarrow> \<exists>ws. waits fx' = waits fx @ ws"
  by (auto simp: iteration_defs split: sum.splits if_splits option.splits prod.splits)

lemma iteration_Next:
  "iteration c env r ff i fx = (Next rsp, fx') \<Longrightarrow>
     rsp = None \<and> \<not> ff \<and> length (waits fx') = length (waits fx) + 1"
  by (auto simp: iteration_defs split: sum.splits if_splits option.splits prod.splits)

lemma loop_waits:
  "loop c env r ff i rsp fx = (res, fx') \<Longrightarrow> \<exists>ws. waits fx' = waits fx @ ws"
proof (induction c env r ff i rsp fx rule: loop.induct)
  case (1 c env r ff i rsp fx)
  show ?case
  proof (cases "i < maxRetries")
    case False
    with "1.prems" show ?thesis by (simp add: loop.simps)
  next
    case True
    obtain st fx1 where it: "iteration c env r ff i fx = (st, fx1)" by force
    from iteration_waits[OF it] obtain ws1 where w1: "waits fx1 = waits fx @ ws1" by blast
    show ?thesis
    proof (cases st)
      case (Return rsp' err)
      with "1.prems" True it w1 show ?thesis by (simp add: loop.simps)
    next
      case (Next rsp')
      with "1.prems" True it have "loop c env r ff (i + 1) rsp' fx1 = (res, fx')"
        by (simp add: loop.simps)
      from "1.IH"[OF True it[symmetric] _ this] Next obtain ws where "waits fx' = waits fx1 @ ws"
        by auto
      with w1 show ?thesis by simp
    qed
  qed
qed

lemma loop_performed:
  "loop c env r ff i rsp fx = (res, fx') \<Longrightarrow> attempts fx = i \<Longrightarrow> i \<le> j \<Longrightarrow>
   j < attempts fx' \<Longrightarrow>
   \<exists>fxj st fxj'. attempts fxj = j \<and> j < maxRetries
      \<and> (length (waits fx) = i \<longrightarrow> ff \<or> length (waits fxj) = j)
      \<and> iteration c env r ff j fxj = (st, fxj')
      \<and> (case st of
            Return rsp' err \<Rightarrow> res = (rsp', err) \<and> fx' = fxj'
          | Next rsp' \<Rightarrow> loop c env r ff (j + 1) rsp' fxj' = (res, fx'))"
proof (induction c env r ff i rsp fx rule: loop.induct)
  case (1 c env r ff i rsp fx)
  have lt: "i < maxRetries"
  proof (rule ccontr)
    assume "\<not> i < maxRetries"
    with "1.prems"(1) have "fx' = fx" by (simp add: loop.simps)
    with "1.prems" show False by simp
  qed
  obtain st fx1 where it: "iteration c env r ff i fx = (st, fx1)" by force
  have a1: "attempts fx1 = i + 1" using iteration_attempts[OF it] "1.prems"(2) by simp
  show ?case
  proof (cases "j = i")
    case True
    have "(case st of
            Return rsp' err \<Rightarrow> res = (rsp', err) \<and> fx' = fxj'
          | Next rsp' \<Rightarrow> loop c env r ff (j + 1) rsp' fxj' = (res, fx'))" if "fxj' = fx1" for fxj'
      using "1.prems"(1) lt it True that by (auto simp: loop.simps split: step.splits)
    then show ?thesis using True "1.prems"(2) lt it by blast
  next
    case False
    then have ij: "i + 1 \<le> j" using "1.prems"(3) by simp
    show ?thesis
    proof (cases st)
      case (Return rsp' err)
      with "1.prems"(1) lt it have "fx' = fx1" by (simp add: loop.simps)
      with a1 ij "1.prems"(4) show ?thesis by simp
    next
      case (Next rsp')
      with "1.prems"(1) lt it have lp: "loop c env r ff (i + 1) rsp' fx1 = (res, fx')"
        by (simp add: loop.simps)
      from iteration_Next it Next have w: "length (waits fx1) = length (waits fx) + 1" by blast
      from "1.IH"[OF lt it[symmetric] _ lp a1 ij "1.prems"(4)] Next w
      show ?thesis by auto
    qed
  qed
qed

lemma DoSigned_loop:
  "DoSigned c env r sign = ((rsp, err), c', fx) \<Longrightarrow> ValidateRequest env r = None \<Longrightarrow>
   loop c env r (IsFastfail r \<or> cache_Has (badHosts c) (Hostname r)) 0 None no_effects
     = ((rsp, err), fx)
   \<and> c' = (if \<not> IsFastfail r \<and> err \<noteq> None
           then c\<lparr>badHosts := cache_Set (badHosts c) (Hostname r)\<rparr> else c)"
  by (auto simp: DoSigned_def Let_def split: prod.splits if_splits)

lemma DoSigned_invalid:
  "ValidateRequest env r = Some e \<Longrightarrow> DoSigned c env r sign = ((None, Some e), c, no_effects)"
  by (simp add: DoSigned_def)

lemma DoSigned_performed:
  assumes "DoSigned c env r sign = ((rsp, err), c', fx)" "j < attempts fx"
  shows "\<exists>fxj st fxj'. attempts fxj = j \<and> j < maxRetries
      \<and> (IsFastfail r \<or> cache_Has (badHosts c) (Hostname r) \<or> length (waits fxj) = j)
      \<and> iteration c env r (IsFastfail r \<or> cache_Has (badHosts c) (Hostname r)) j fxj = (st, fxj')
      \<and> (case st of
            Return rsp' err' \<Rightarrow> (rsp, err) = (rsp', err') \<and> fx = fxj'
          | Next rsp' \<Rightarrow> loop c env r (IsFastfail r \<or> cache_Has (badHosts c) (Hostname r))
               (j + 1) rsp' fxj' = ((rsp, err), fx))"
proof -
  have v: "ValidateRequest env r = None"
  proof (cases "ValidateRequest env r")
    case (Some e)
    from DoSigned_invalid[OF this, of c sign] assms have False
      by (auto simp: no_effects_def)
    then show ?thesis ..
  qed simp
  from DoSigned_loop[OF assms(1) v]
  have lp: "loop c env r (IsFastfail r \<or> cache_Has (badHosts c) (Hostname r)) 0 None no_effects
     = ((rsp, err), fx)" by simp
  from loop_performed[OF lp _ _ assms(2)] show ?thesis by (simp add: no_effects_def)
qed

lemma call_split: "X = ((fst (fst X), snd (fst X)), fst (snd X), snd (snd X))"
  by simp

lemma DoSigned_first_attempt:
  assumes "DoSigned c env r sign = ((rsp, err), c', fx)" "ValidateRequest env r = None"
  shows "0 < attempts fx"
proof -
  let ?ff = "IsFastfail r \<or> cache_Has (badHosts c) (Hostname r)"
  obtain st fx1 where it: "iteration c env r ?ff 0 no_effects = (st, fx1)" by force
  from iteration_attempts[OF it] have a1: "attempts fx1 = 1" by (simp add: no_effects_def)
  from DoSigned_loop[OF assms]
  have lp: "loop c env r ?ff 0 None no_effects = ((rsp, err), fx)" by simp
  show ?thesis
  proof (cases st)
    case (Return rsp' err')
    with lp it have "fx = fx1" by (simp add: loop.simps maxRetries_def)
    with a1 show ?thesis by simp
  next
    case (Next rsp')
    with lp it have l1: "loop c env r ?ff (0 + 1) rsp' fx1 = ((rsp, err), fx)"
      by (simp add: loop.simps maxRetries_def)
    have "attempts fx1 \<le> attempts fx"
    proof (rule ccontr)
      assume "\<not> attempts fx1 \<le> attempts fx"
      then have "attempts fx < attempts fx1" by simp
      moreover have "\<And>c env r ff i rsp fx res fx'.
          loop c env r ff i rsp fx = (res, fx') \<Longrightarrow> attempts fx \<le> attempts fx'"
      proof -
        fix c env r ff i rsp fx res fx'
        show "loop c env r ff i rsp fx = (res, fx') \<Longrightarrow> attempts fx \<le> attempts fx'"
        proof (induction c env r ff i rsp fx rule: loop.induct)
          case (1 c env r ff i rsp fx)
          show ?case
          proof (cases "i < maxRetries")
            case False
            with "1.prems" show ?thesis by (simp add: loop.simps)
          next
            case True
            obtain st fx1 where it: "iteration c env r ff i fx = (st, fx1)" by force
            from iteration_attempts[OF it] have a: "attempts fx \<le> attempts fx1" by simp
            show ?thesis
            proof (cases st)
              case (Return rsp' err)
              with "1.prems" True it a show ?thesis by (simp add: loop.simps)
            next
              case (Next rsp')
              with "1.prems" True it
              have "loop c env r ff (i + 1) rsp' fx1 = (res, fx')" by (simp add: loop.simps)
              from "1.IH"[OF True it[symmetric] _ this] Next a show ?thesis by auto
            qed
          qed
        qed
      qed
      ultimately show False using l1 by (metis not_less)
    qed
    with a1 show ?thesis by simp
  qed
qed

lemma iteration_retryable:
  assumes "retryable c (RoundTrip env (attempts fx) r)" "\<not> ff"
  shows "\<exists>fx'. iteration c env r ff i fx =
           (case Done env i of Some cerr \<Rightarrow> Return None (Some cerr) | None \<Rightarrow> Next None, fx')
         \<and> attempts fx' = attempts fx + 1
         \<and> waits fx' = waits fx @
             [let h = hint (RoundTrip env (attempts fx) r);
                  b = (if h \<noteq> [] then retry_after env i h else 0)
              in if b = 0 then baseBackoff * 2 ^ (i + 1) else b]"
proof (cases "RoundTrip env (attempts fx) r")
  case (Inl err)
  with assms show ?thesis
    by (auto simp: iteration_defs retryable_def hint_def split: option.splits)
next
  case (Inr raw)
  with assms show ?thesis
    by (auto simp: iteration_defs retryable_def hint_def with_Body_def split: option.splits)
qed

lemma loop_Next:
  "i < maxRetries \<Longrightarrow> iteration c env r ff i fx = (Next rsp', fx') \<Longrightarrow>
   loop c env r ff i rsp fx = loop c env r ff (i + 1) rsp' fx'"
  by (simp add: loop.simps)

lemma loop_Return:
  "i < maxRetries \<Longrightarrow> iteration c env r ff i fx = (Return rsp' err, fx') \<Longrightarrow>
   loop c env r ff i rsp fx = ((rsp', err), fx')"
  by (simp add: loop.simps)

lemma loop_retry_step:
  assumes "i < maxRetries" "retryable c (RoundTrip env (attempts fx) r)"
    "hint (RoundTrip env (attempts fx) r) = []" "\<not> ff" "Done env i = None"
  shows "\<exists>fx'. loop c env r ff i rsp fx = loop c env r ff (i + 1) None fx'
     \<and> attempts fx' = attempts fx + 1 \<and> waits fx' = waits fx @ [baseBackoff * 2 ^ (i + 1)]"
proof -
  from iteration_retryable[OF assms(2,4), of i] assms(3,5)
  obtain fx' where "iteration c env r ff i fx = (Next None, fx')"
    "attempts fx' = attempts fx + 1" "waits fx' = waits fx @ [baseBackoff * 2 ^ (i + 1)]"
    by auto
  with loop_Next[OF assms(1) this(1)] show ?thesis by blast
qed

lemma loop_all_retryable:
  assumes outcomes: "\<forall>i<maxRetries. retryable c (RoundTrip env i r) \<and> hint (RoundTrip env i r) = []"
    and timers: "\<forall>i<maxRetries. Done env i = None"
    and noff: "\<not> ff"
  shows "attempts fx = i \<Longrightarrow> i \<le> maxRetries \<Longrightarrow> n = maxRetries - i \<Longrightarrow>
     \<exists>fx'. loop c env r ff i rsp fx =
         ((if i < maxRetries then None else rsp,
           Some (errors_New ''transport reached max retries'')), fx')
       \<and> attempts fx' = maxRetries
       \<and> waits fx' = waits fx @ map (\<lambda>k. baseBackoff * 2 ^ (k + 1)) [i..<maxRetries]"
proof (induction n arbitrary: i rsp fx)
  case 0
  then have "i = maxRetries" by simp
  then show ?case using 0 by (simp add: loop.simps)
next
  case (Suc n)
  then have lt: "i < maxRetries" by simp
  from outcomes timers lt Suc.prems(1)
  have "retryable c (RoundTrip env (attempts fx) r)" "hint (RoundTrip env (attempts fx) r) = []"
    "Done env i = None" by auto
  from loop_retry_step[OF lt this(1,2) noff this(3), of rsp]
  obtain fx1 where 1: "loop c env r ff i rsp fx = loop c env r ff (i + 1) None fx1"
    "attempts fx1 = attempts fx + 1" "waits fx1 = waits fx @ [baseBackoff * 2 ^ (i + 1)]"
    by blast
  have "attempts fx1 = i + 1" "i + 1 \<le> maxRetries" "n = maxRetries - (i + 1)"
    using 1(2) Suc.prems lt by simp_all
  from Suc.IH[OF this, of None]
  obtain fx' where 2: "loop c env r ff (i + 1) None fx1 =
         ((if i + 1 < maxRetries then None else None,
           Some (errors_New ''transport reached max retries'')), fx')"
       "attempts fx' = maxRetries"
       "waits fx' = waits fx1 @ map (\<lambda>k. baseBackoff * 2 ^ (k + 1)) [i + 1..<maxRetries]"
    by blast
  have "[i..<maxRetries] = i # [i + 1..<maxRetries]" using lt by (simp add: upt_conv_Cons)
  with 1 2 lt show ?case by simp
qed

section \<open>Retries run out after five attempts\<close>

text \<open>
  Claim C2. Take a call that is not in fast-fail mode (the request context does not ask
  for it and the host is not in the cache of bad hosts), on a valid request, in which each
  of the five round trips gives a retryable outcome without a \<open>Retry-After\<close> value, and
  whose backoff waits run to their end (the request context is not done during them).
  Then exactly 5 attempts are made, the waits are 4 s, 8 s, 16 s, 32 s and 64 s in this
  order, that is \<open>baseBackoff * 2 ^ (i + 1)\<close> with no ceiling, no response is returned
  and the error is "transport reached max retries".
\<close>

theorem five_retryable_attempts_exhaust:
  assumes call: "DoSigned c env r sign = ((rsp, err), c', fx)"
    and valid: "ValidateRequest env r = None"
    and noff: "\<not> IsFastfail r" "\<not> cache_Has (badHosts c) (Hostname r)"
    and outcomes: "\<forall>i<maxRetries. retryable c (RoundTrip env i r) \<and> hint (RoundTrip env i r) = []"
    and timers: "\<forall>i<maxRetries. Done env i = None"
  shows "attempts fx = 5
     \<and> waits fx = [4 * Second, 8 * Second, 16 * Second, 32 * Second, 64 * Second]
     \<and> rsp = None \<and> err = Some (errors_New ''transport reached max retries'')"
proof -
  have lp: "loop c env r False 0 None no_effects = ((rsp, err), fx)"
    using DoSigned_loop[OF call valid] noff by simp
  have up: "[0..<maxRetries] = [0, 1, 2, 3, 4]"
    by (simp add: maxRetries_def upt_rec)
  have "\<exists>fx'. loop c env r False 0 None no_effects =
         ((if 0 < maxRetries then None else None,
           Some (errors_New ''transport reached max retries'')), fx')
       \<and> attempts fx' = maxRetries
       \<and> waits fx' = waits no_effects @ map (\<lambda>k. baseBackoff * 2 ^ (k + 1)) [0..<maxRetries]"
    by (rule loop_all_retryable[OF outcomes timers, where n = maxRetries])
       (simp_all add: no_effects_def)
  then obtain fx' where f: "loop c env r False 0 None no_effects =
         ((None, Some (errors_New ''transport reached max retries'')), fx')"
       "attempts fx' = maxRetries"
       "waits fx' = waits no_effects @ map (\<lambda>k. baseBackoff * 2 ^ (k + 1)) [0..<maxRetries]"
    by auto
  from f(1) lp have eq: "rsp = None" "err = Some (errors_New ''transport reached max retries'')"
    "fx = fx'" by simp_all
  have w: "map (\<lambda>k. baseBackoff * 2 ^ (k + 1)) [0, 1, 2, 3, 4::nat]
      = [4 * Second, 8 * Second, 16 * Second, 32 * Second, 64 * Second]"
    by (simp add: baseBackoff_def)
  show ?thesis
    unfolding eq using f(2,3) by (simp only: up w) (simp add: maxRetries_def no_effects_def)
qed


theorem five_retryable_attempts_exhaust_witness:
  "attempts (snd (snd (DoSigned ex_client (ex_env (\<lambda>n r. Inr (ex_503 []))) ex_req ex_sign))) = 5
   \<and> waits (snd (snd (DoSigned ex_client (ex_env (\<lambda>n r. Inr (ex_503 []))) ex_req ex_sign)))
       = [4 * Second, 8 * Second, 16 * Second, 32 * Second, 64 * Second]
   \<and> fst (DoSigned ex_client (ex_env (\<lambda>n r. Inr (ex_503 []))) ex_req ex_sign)
       = (None, Some (errors_New ''transport reached max retries''))"
  using five_retryable_attempts_exhaust
    [where c = ex_client and env = "ex_env (\<lambda>n r. Inr (ex_503 []))" and r = ex_req
       and sign = ex_sign, OF call_split]
  by (simp add: ex_env_def ex_req_def ex_client_def New_def cache_Has_def retryable_def
      hint_def ex_503_def ex_rsp_def Header_Get_def StatusTooManyRequests_def prod_eq_iff)

lemma iteration_success:
  assumes "RoundTrip env (attempts fx) r = Inr raw" "\<not> ContentLength raw > bodyMax c"
    "StatusCode raw < 500" "StatusCode raw \<noteq> StatusTooManyRequests"
  shows "iteration c env r ff i fx =
     (Return (Some (with_Body raw
        \<lparr>limit_N = (if ContentLength raw < 0 then bodyMax c else ContentLength raw),
         limit_R = Body raw\<rparr>)) None, fx\<lparr>attempts := attempts fx + 1\<rparr>)"
  using assms by (simp add: iteration_defs with_Body_def)

lemma iteration_too_large:
  assumes "RoundTrip env (attempts fx) r = Inr raw" "ContentLength raw > bodyMax c"
  shows "iteration c env r ff i fx =
     (Return None (Some ErrBodyTooLarge),
      fx\<lparr>attempts := attempts fx + 1,
         released := released fx @
           [limited_Close
              \<lparr>limit_N = (if ContentLength raw < 0 then bodyMax c else ContentLength raw),
               limit_R = Body raw\<rparr>]\<rparr>)"
  using assms by (simp add: iteration_defs with_Body_def IsV2_def)



lemma DoSigned_returned:
  assumes "DoSigned c env r sign = ((rsp, err), c', fx)" "j < attempts fx"
    "\<And>fxj ff. attempts fxj = j \<Longrightarrow> iteration c env r ff j fxj = (Return rsp' err', g fxj)"
  shows "rsp = rsp' \<and> err = err' \<and> attempts fx = j + 1
     \<and> (\<exists>fxj. attempts fxj = j \<and> fx = g fxj
          \<and> (IsFastfail r \<or> cache_Has (badHosts c) (Hostname r) \<or> length (waits fxj) = j))"
proof -
  from DoSigned_performed[OF assms(1,2)] obtain fxj st fxj' where
    p: "attempts fxj = j"
      "IsFastfail r \<or> cache_Has (badHosts c) (Hostname r) \<or> length (waits fxj) = j"
      "iteration c env r (IsFastfail r \<or> cache_Has (badHosts c) (Hostname r)) j fxj = (st, fxj')"
      "case st of Return rsp' err' \<Rightarrow> (rsp, err) = (rsp', err') \<and> fx = fxj'
         | Next rsp' \<Rightarrow> loop c env r (IsFastfail r \<or> cache_Has (badHosts c) (Hostname r))
               (j + 1) rsp' fxj' = ((rsp, err), fx)"
    by blast
  from assms(3)[OF p(1)] p(3) have st: "st = Return rsp' err'" "fxj' = g fxj" by simp_all
  with p(4) have "rsp = rsp'" "err = err'" "fx = g fxj" by simp_all
  moreover from iteration_attempts[OF p(3)] p(1) st(2) have "attempts (g fxj) = j + 1" by simp
  ultimately show ?thesis using p(1,2) by auto
qed

section \<open>A response that is accepted is returned\<close>



lemma DoSigned_first_return:
  assumes "ValidateRequest env r = None"
    "iteration c env r (IsFastfail r \<or> cache_Has (badHosts c) (Hostname r)) 0 no_effects
       = (Return rsp' err', fx')"
  shows "DoSigned c env r sign =
     ((rsp', err'),
      (if \<not> IsFastfail r \<and> err' \<noteq> None
       then c\<lparr>badHosts := cache_Set (badHosts c) (Hostname r)\<rparr> else c), fx')"
proof -
  have "loop c env r (IsFastfail r \<or> cache_Has (badHosts c) (Hostname r)) 0 None no_effects
      = ((rsp', err'), fx')"
    using assms(2) by (simp add: loop.simps maxRetries_def)
  then show ?thesis using assms(1) by (auto simp: DoSigned_def Let_def)
qed


section \<open>A declared length over the maximum\<close>

text \<open>
  Claim C3. For every attempt \<open>j\<close> of a call whose round trip gives a response with a
  declared (non-negative) content length above the maximum body size: the call returns
  no response and \<open>ErrBodyTooLarge\<close>; attempt \<open>j\<close> is the last one, so the error is not
  retried; and the last body the client released before returning is the one of this
  response, closed, with the stream drained up to the declared length: nothing is left
  unread when the stream holds no more than the declared length, as a body of net/http
  does. The body is taken as the transport hands it over, not closed yet.
\<close>

theorem oversized_body_rejected:
  assumes call: "DoSigned c env r sign = ((rsp, err), c', fx)"
    and j: "j < attempts fx"
    and raw: "RoundTrip env j r = Inr raw"
    and declared: "0 \<le> ContentLength raw"
    and large: "ContentLength raw > bodyMax c"
    and fresh: "\<not> closed (Body raw)"
  shows "rsp = None \<and> err = Some ErrBodyTooLarge \<and> attempts fx = j + 1
     \<and> released fx \<noteq> []
     \<and> closed (limit_R (last (released fx)))
     \<and> unread (limit_R (last (released fx)))
         = drop (nat (ContentLength raw)) (unread (Body raw))
     \<and> (length (unread (Body raw)) \<le> nat (ContentLength raw)
          \<longrightarrow> unread (limit_R (last (released fx))) = [])"
proof -
  let ?g = "\<lambda>f. f\<lparr>attempts := attempts f + 1,
         released := released f @
           [limited_Close \<lparr>limit_N = ContentLength raw, limit_R = Body raw\<rparr>]\<rparr>"
  have "\<And>fxj ff. attempts fxj = j \<Longrightarrow>
      iteration c env r ff j fxj = (Return None (Some ErrBodyTooLarge), ?g fxj)"
    using iteration_too_large[of env _ r raw c] raw large declared by simp
  from DoSigned_returned[OF call j this]
  obtain fxj where r: "rsp = None" "err = Some ErrBodyTooLarge" "attempts fx = j + 1"
    "fx = ?g fxj" by blast
  have cl: "limited_Close \<lparr>limit_N = ContentLength raw, limit_R = Body raw\<rparr> =
     \<lparr>limit_N = ContentLength raw
         - int (min (nat (ContentLength raw)) (length (unread (Body raw)))),
      limit_R = (Body raw)\<lparr>unread := drop (nat (ContentLength raw)) (unread (Body raw)),
                            closed := True\<rparr>\<rparr>"
    using limited_Close_open[of "\<lparr>limit_N = ContentLength raw, limit_R = Body raw\<rparr>"] fresh
    by simp
  show ?thesis using r(1,2,3) unfolding r(4) by (simp add: cl)
qed

theorem oversized_body_rejected_witness:
  "fst (DoSigned ex_client (ex_env (\<lambda>n r. Inr ex_200_big)) ex_req ex_sign)
       = (None, Some ErrBodyTooLarge)
   \<and> attempts (snd (snd (DoSigned ex_client (ex_env (\<lambda>n r. Inr ex_200_big)) ex_req ex_sign))) = 1
   \<and> limit_R (last (released
        (snd (snd (DoSigned ex_client (ex_env (\<lambda>n r. Inr ex_200_big)) ex_req ex_sign)))))
       = \<lparr>unread = [], closed = True\<rparr>"
proof -
  let ?X = "DoSigned ex_client (ex_env (\<lambda>n r. Inr ex_200_big)) ex_req ex_sign"
  have a: "0 < attempts (snd (snd ?X))"
    by (rule DoSigned_first_attempt[OF call_split]) (simp add: ex_env_def)
  from oversized_body_rejected[OF call_split a, of ex_200_big]
  show ?thesis
    by (simp add: ex_env_def ex_200_big_def ex_rsp_def ex_client_def New_def prod_eq_iff)
qed

lemma do_outcome: "fst (do c env r fx) = outcome c env r (attempts fx)"
  by (simp add: do_def outcome_def no_effects_def Let_def split: sum.splits)


lemma iteration_not_found:
  assumes "outcome c env r (attempts fx) = Inl e"
    "\<not> (IsV2 e [DeadlineExceeded, Canceled, ErrBodyTooLarge, ErrReservedAddr]
      \<or> Contains (Error e) ''stopped after 10 redirects''
      \<or> Contains (Error e) ''tls: '' \<or> Contains (Error e) ''x509: '')"
    "As_DNSError (chain e) = Some True"
  shows "iteration c env r ff i fx = (Return None (Some (SetNotFound e)), snd (do c env r fx))"
proof -
  obtain res fx1 where d: "do c env r fx = (res, fx1)" by force
  with do_outcome[of c env r fx] assms(1) have "res = Inl e" by simp
  with d assms(2,3) show ?thesis by (auto simp: iteration_def)
qed

section \<open>Errors that are not retried\<close>


lemma outcome_ex_error: "outcome c (ex_env (\<lambda>n r. Inl e)) r j = Inl e"
  by (simp add: outcome_def do_def ex_env_def)


lemma ex_dns_not_found_text:
  "\<not> (IsV2 ex_dns_not_found [DeadlineExceeded, Canceled, ErrBodyTooLarge, ErrReservedAddr]
      \<or> Contains (Error ex_dns_not_found) ''stopped after 10 redirects''
      \<or> Contains (Error ex_dns_not_found) ''tls: ''
      \<or> Contains (Error ex_dns_not_found) ''x509: '')"
  by (simp add: ex_dns_not_found_def IsV2_def)


lemma iteration_fastfail:
  "iteration c env r True i fx = (st, fx') \<Longrightarrow>
     (\<exists>rsp err. st = Return rsp err) \<and> waits fx' = waits fx"
  by (auto simp: iteration_defs split: sum.splits if_splits option.splits prod.splits)

lemma iteration_fastfail_retryable:
  assumes "retryable c (RoundTrip env (attempts fx) r)" "iteration c env r True i fx = (st, fx')"
  shows "\<exists>e. st = Return None (Some (fmt_Errorf [] e '' (fast fail)''))"
proof (cases "RoundTrip env (attempts fx) r")
  case (Inl err)
  with assms show ?thesis
    by (auto simp: iteration_defs retryable_def)
next
  case (Inr raw)
  with assms show ?thesis
    by (auto simp: iteration_defs retryable_def with_Body_def)
qed

section \<open>Fast fail\<close>

text \<open>
  Claim C6. When fast-fail is active for a call on a valid request, set in the request
  context or derived from a hit in the cache of bad hosts, exactly one attempt is made
  and no backoff wait is started; and if that attempt has a retryable outcome, the call
  returns no response and an error, the one of the attempt wrapped with "(fast fail)".
\<close>

theorem fast_fail_single_attempt:
  assumes call: "DoSigned c env r sign = ((rsp, err), c', fx)"
    and valid: "ValidateRequest env r = None"
    and ff: "IsFastfail r \<or> cache_Has (badHosts c) (Hostname r)"
  shows "attempts fx = 1 \<and> waits fx = []
     \<and> (retryable c (RoundTrip env 0 r)
          \<longrightarrow> rsp = None \<and> (\<exists>e. err = Some (fmt_Errorf [] e '' (fast fail)'')))"
proof -
  from DoSigned_loop[OF call valid] ff
  have lp: "loop c env r True 0 None no_effects = ((rsp, err), fx)" by simp
  obtain st fx1 where it: "iteration c env r True 0 no_effects = (st, fx1)" by force
  from iteration_fastfail[OF it] obtain rsp' err' where
    st: "st = Return rsp' err'" and w: "waits fx1 = []" by (auto simp: no_effects_def)
  from lp it st have res: "rsp = rsp'" "err = err'" "fx = fx1"
    by (simp_all add: loop.simps maxRetries_def)
  from iteration_attempts[OF it] have a: "attempts fx1 = 1" by (simp add: no_effects_def)
  have "rsp = None \<and> (\<exists>e. err = Some (fmt_Errorf [] e '' (fast fail)''))"
    if "retryable c (RoundTrip env 0 r)"
    using iteration_fastfail_retryable[of c env no_effects r 0 st fx1] that it st res
    by (auto simp: no_effects_def)
  with res a w show ?thesis by simp
qed

theorem fast_fail_single_attempt_witness:
  "attempts (snd (snd (DoSigned ex_client (ex_env (\<lambda>n r. Inr (ex_503 []))) ex_req_fastfail ex_sign))) = 1
   \<and> waits (snd (snd (DoSigned ex_client (ex_env (\<lambda>n r. Inr (ex_503 []))) ex_req_fastfail ex_sign))) = []
   \<and> fst (fst (DoSigned ex_client (ex_env (\<lambda>n r. Inr (ex_503 []))) ex_req_fastfail ex_sign)) = None
   \<and> (\<exists>e. snd (fst (DoSigned ex_client (ex_env (\<lambda>n r. Inr (ex_503 []))) ex_req_fastfail ex_sign))
          = Some (fmt_Errorf [] e '' (fast fail)''))
   \<and> attempts (snd (snd (DoSigned ex_client_bad_host (ex_env (\<lambda>n r. Inr (ex_503 []))) ex_req ex_sign))) = 1
   \<and> waits (snd (snd (DoSigned ex_client_bad_host (ex_env (\<lambda>n r. Inr (ex_503 []))) ex_req ex_sign))) = []"
proof -
  have r: "retryable c (RoundTrip (ex_env (\<lambda>n r. Inr (ex_503 []))) 0 q)"
    if "bodyMax c = 4" for c q
    using that by (simp add: retryable_def ex_env_def ex_503_def ex_rsp_def
        StatusTooManyRequests_def)
  from fast_fail_single_attempt[OF call_split, where c = ex_client
      and env = "ex_env (\<lambda>n r. Inr (ex_503 []))" and r = ex_req_fastfail and sign = ex_sign]
    r[of ex_client ex_req_fastfail]
  have 1: "attempts (snd (snd (DoSigned ex_client (ex_env (\<lambda>n r. Inr (ex_503 []))) ex_req_fastfail ex_sign))) = 1
   \<and> waits (snd (snd (DoSigned ex_client (ex_env (\<lambda>n r. Inr (ex_503 []))) ex_req_fastfail ex_sign))) = []
   \<and> fst (fst (DoSigned ex_client (ex_env (\<lambda>n r. Inr (ex_503 []))) ex_req_fastfail ex_sign)) = None
   \<and> (\<exists>e. snd (fst (DoSigned ex_client (ex_env (\<lambda>n r. Inr (ex_503 []))) ex_req_fastfail ex_sign))
          = Some (fmt_Errorf [] e '' (fast fail)''))"
    by (simp add: ex_env_def ex_req_fastfail_def ex_req_def ex_client_def New_def)
  from fast_fail_single_attempt[OF call_split, where c = ex_client_bad_host
      and env = "ex_env (\<lambda>n r. Inr (ex_503 []))" and r = ex_req and sign = ex_sign]
  have 2: "attempts (snd (snd (DoSigned ex_client_bad_host (ex_env (\<lambda>n r. Inr (ex_503 []))) ex_req ex_sign))) = 1
   \<and> waits (snd (snd (DoSigned ex_client_bad_host (ex_env (\<lambda>n r. Inr (ex_503 []))) ex_req ex_sign))) = []"
    by (simp add: ex_env_def ex_req_def ex_client_bad_host_def cache_Has_def)
  from 1 2 show ?thesis by simp
qed

section \<open>Writes to the cache of bad hosts\<close>

text \<open>
  Claim C7, as amended. The cache of bad hosts is written, with the hostname of the
  request, exactly when the request passed validation, the call returns a non-nil error
  and the request context does not ask to fail fast; a call that fails fast because of a
  hit in the cache is among these. In every other case (a successful return, an invalid
  request, an error of a call whose context asks to fail fast) the client is unchanged.
\<close>

theorem bad_host_written_iff:
  assumes call: "DoSigned c env r sign = ((rsp, err), c', fx)"
  shows "(badHosts c' \<noteq> badHosts c
            \<longleftrightarrow> ValidateRequest env r = None \<and> \<not> IsFastfail r \<and> err \<noteq> None)
       \<and> (ValidateRequest env r = None \<and> \<not> IsFastfail r \<and> err \<noteq> None
            \<longrightarrow> c' = c\<lparr>badHosts := Hostname r # badHosts c\<rparr>)
       \<and> (\<not> (ValidateRequest env r = None \<and> \<not> IsFastfail r \<and> err \<noteq> None) \<longrightarrow> c' = c)"
proof (cases "ValidateRequest env r")
  case (Some e)
  from DoSigned_invalid[OF this, of c sign] call show ?thesis using Some by simp
next
  case None
  from DoSigned_loop[OF call None]
  have "c' = (if \<not> IsFastfail r \<and> err \<noteq> None
           then c\<lparr>badHosts := cache_Set (badHosts c) (Hostname r)\<rparr> else c)" by simp
  then show ?thesis using None by (auto simp: cache_Set_def)
qed

lemma ex_503_fastfail_iteration:
  "2 \<le> bodyMax c \<Longrightarrow>
   \<exists>fx'. iteration c (ex_env (\<lambda>n r. Inr (ex_503 []))) q True 0 no_effects
      = (Return None (Some (fmt_Errorf []
           (errors_New ''http response: 503 Service Unavailable'') '' (fast fail)'')), fx')"
  by (simp add: iteration_defs ex_env_def ex_503_def ex_rsp_def no_effects_def
        with_Body_def StatusTooManyRequests_def Header_Get_def)

theorem bad_host_written_iff_witness:
  "fst (snd (DoSigned ex_client (ex_env (\<lambda>n r. Inl ex_dns_not_found)) ex_req ex_sign))
     = ex_client\<lparr>badHosts := [''example.org'']\<rparr>
   \<and> fst (snd (DoSigned ex_client (ex_env (\<lambda>n r. Inr ex_200)) ex_req ex_sign)) = ex_client"
proof -
  let ?X = "DoSigned ex_client (ex_env (\<lambda>n r. Inl ex_dns_not_found)) ex_req ex_sign"
  let ?Y = "DoSigned ex_client (ex_env (\<lambda>n r. Inr ex_200)) ex_req ex_sign"
  have "iteration ex_client (ex_env (\<lambda>n r. Inl ex_dns_not_found)) ex_req
      (IsFastfail ex_req \<or> cache_Has (badHosts ex_client) (Hostname ex_req)) 0 no_effects
      = (Return None (Some (SetNotFound ex_dns_not_found)),
         snd (do ex_client (ex_env (\<lambda>n r. Inl ex_dns_not_found)) ex_req no_effects))"
    by (rule iteration_not_found[OF outcome_ex_error ex_dns_not_found_text])
       (simp add: ex_dns_not_found_def)
  from DoSigned_first_return[OF _ this, of ex_sign]
  have ex: "snd (fst ?X) \<noteq> None" by (simp add: ex_env_def)
  have "iteration ex_client (ex_env (\<lambda>n r. Inr ex_200)) ex_req
      (IsFastfail ex_req \<or> cache_Has (badHosts ex_client) (Hostname ex_req)) 0 no_effects
      = (Return (Some (with_Body ex_200
        \<lparr>limit_N = (if ContentLength ex_200 < 0 then bodyMax ex_client else ContentLength ex_200),
         limit_R = Body ex_200\<rparr>)) None, no_effects\<lparr>attempts := attempts no_effects + 1\<rparr>)"
    by (rule iteration_success)
       (simp_all add: ex_env_def ex_200_def ex_rsp_def ex_client_def New_def
          StatusTooManyRequests_def)
  from DoSigned_first_return[OF _ this, of ex_sign]
  have ey: "snd (fst ?Y) = None" by (simp add: ex_env_def)
  from bad_host_written_iff[OF call_split, THEN conjunct2, THEN conjunct1] ex
  have "fst (snd ?X) = ex_client\<lparr>badHosts := [''example.org'']\<rparr>"
    by (simp add: ex_env_def ex_req_def ex_client_def New_def)
  moreover
  from bad_host_written_iff[OF call_split, THEN conjunct2, THEN conjunct2] ey
  have "fst (snd ?Y) = ex_client" by simp
  ultimately show ?thesis by simp
qed

text \<open>
  Claim C7 as stated fails for a call whose fast-fail is derived from a hit in the cache:
  the host is in the cache, the one attempt gets a 503, the call returns an error, and
  the deferred function writes the host once more.
\<close>

theorem bad_host_rewritten_on_cache_hit_counterexample:
  "cache_Has (badHosts ex_client_bad_host) (Hostname ex_req)
   \<and> snd (fst (DoSigned ex_client_bad_host (ex_env (\<lambda>n r. Inr (ex_503 []))) ex_req ex_sign))
       \<noteq> None
   \<and> badHosts (fst (snd (DoSigned ex_client_bad_host (ex_env (\<lambda>n r. Inr (ex_503 []))) ex_req ex_sign)))
       = [''example.org'', ''example.org'']
   \<and> badHosts ex_client_bad_host = [''example.org'']"
proof -
  have h: "cache_Has (badHosts ex_client_bad_host) (Hostname ex_req)"
    by (simp add: ex_client_bad_host_def ex_req_def cache_Has_def)
  have "2 \<le> bodyMax ex_client_bad_host"
    by (simp add: ex_client_bad_host_def ex_client_def New_def)
  from ex_503_fastfail_iteration[OF this, of ex_req] obtain fx' where
    "iteration ex_client_bad_host (ex_env (\<lambda>n r. Inr (ex_503 []))) ex_req
       (IsFastfail ex_req \<or> cache_Has (badHosts ex_client_bad_host) (Hostname ex_req))
       0 no_effects
      = (Return None (Some (fmt_Errorf []
           (errors_New ''http response: 503 Service Unavailable'') '' (fast fail)'')), fx')"
    using h by auto
  from DoSigned_first_return[OF _ this, of ex_sign] h show ?thesis
    by (simp add: ex_env_def) (simp add: ex_req_def ex_client_bad_host_def cache_Set_def)
qed

lemma digit_nonneg: "digit c = Some d \<Longrightarrow> 0 \<le> d"
  by (auto simp: digit_def split: if_splits)

lemma ParseUint_from_nonneg: "0 \<le> n \<Longrightarrow> 0 \<le> ParseUint_from n s"
proof (induction s arbitrary: n)
  case Nil
  then show ?case by simp
next
  case (Cons c cs)
  show ?case
  proof (cases "digit c")
    case None
    then show ?thesis by simp
  next
    case (Some d)
    with digit_nonneg have "0 \<le> n * 10 + d" using Cons.prems by fastforce
    with Cons.IH Some show ?thesis by (simp add: Let_def maxVal_def)
  qed
qed

lemma ParseUint_nonneg: "0 \<le> ParseUint s"
  by (simp add: ParseUint_def ParseUint_from_nonneg)

lemma Sub_pos: "u < t \<Longrightarrow> 0 < Sub t u"
  by (simp add: Sub_def Let_def maxDuration_def minDuration_def)

lemma retry_after_value:
  "retry_after env i after =
     (if ParseUint after \<noteq> 0
      then min (ParseUint after * Second) (baseBackoff * int maxRetries)
      else if Now env i < ParseTime env after
      then min (Sub (ParseTime env after) (Now env i)) (baseBackoff * int maxRetries)
      else 0)"
  by (auto simp: retry_after_def Let_def min_def Sub_def maxDuration_def minDuration_def
      baseBackoff_def Second_def maxRetries_def)

lemma min_pos_neq_zero: "0 < a \<Longrightarrow> 0 < b \<Longrightarrow> min a b \<noteq> (0::int)"
  by (simp add: min_def)

lemma retry_after_zero_iff:
  "retry_after env i after = 0
     \<longleftrightarrow> ParseUint after = 0 \<and> \<not> Now env i < ParseTime env after"
proof -
  let ?K = "baseBackoff * int maxRetries"
  have c: "0 < ?K"
    by (simp add: baseBackoff_def Second_def maxRetries_def)
  show ?thesis
  proof (cases "ParseUint after = 0")
    case True
    show ?thesis
    proof (cases "Now env i < ParseTime env after")
      case later: True
      from Sub_pos[OF this] c have "min (Sub (ParseTime env after) (Now env i)) ?K \<noteq> 0"
        by (rule min_pos_neq_zero)
      with True later show ?thesis by (simp add: retry_after_value)
    next
      case False
      with True show ?thesis by (simp add: retry_after_value)
    qed
  next
    case False
    with ParseUint_nonneg[of after] have "0 < ParseUint after * Second"
      by (simp add: Second_def)
    from this c have "min (ParseUint after * Second) ?K \<noteq> 0"
      by (rule min_pos_neq_zero)
    with False show ?thesis by (simp add: retry_after_value)
  qed
qed

lemma wait_after_retryable:
  assumes call: "DoSigned c env r sign = ((rsp, err), c', fx)"
    and j: "j < attempts fx"
    and rt: "retryable c (RoundTrip env j r)"
    and noff: "\<not> IsFastfail r" "\<not> cache_Has (badHosts c) (Hostname r)"
  shows "j < length (waits fx)
     \<and> waits fx ! j =
         (let h = hint (RoundTrip env j r);
              b = (if h \<noteq> [] then retry_after env j h else 0)
          in if b = 0 then baseBackoff * 2 ^ (j + 1) else b)"
proof -
  let ?b = "let h = hint (RoundTrip env j r);
              b = (if h \<noteq> [] then retry_after env j h else 0)
          in if b = 0 then baseBackoff * 2 ^ (j + 1) else b"
  have ff: "(IsFastfail r \<or> cache_Has (badHosts c) (Hostname r)) = False" using noff by simp
  from DoSigned_performed[OF call j] obtain fxj st fxj' where
    q: "attempts fxj = j"
      "IsFastfail r \<or> cache_Has (badHosts c) (Hostname r) \<or> length (waits fxj) = j"
      "iteration c env r (IsFastfail r \<or> cache_Has (badHosts c) (Hostname r)) j fxj = (st, fxj')"
      "case st of Return rsp' err' \<Rightarrow> (rsp, err) = (rsp', err') \<and> fx = fxj'
         | Next rsp' \<Rightarrow> loop c env r (IsFastfail r \<or> cache_Has (badHosts c) (Hostname r))
               (j + 1) rsp' fxj' = ((rsp, err), fx)"
    by blast
  have q2: "length (waits fxj) = j" using q(2) noff by simp
  note p = q(1) q2 q(3)[unfolded ff] q(4)[unfolded ff]
  from iteration_retryable[of c env fxj r False j] rt p(1,3)
  have w: "waits fxj' = waits fxj @ [?b]" by auto
  have "\<exists>ws. waits fx = waits fxj' @ ws"
  proof (cases st)
    case (Return rsp' err')
    with p(4) show ?thesis by simp
  next
    case (Next rsp')
    with p(4) loop_waits show ?thesis by auto
  qed
  then obtain ws where "waits fx = waits fxj @ ?b # ws" using w by auto
  with p(2) show ?thesis by (simp add: nth_append)
qed

section \<open>The backoff after a Retry-After header\<close>

text \<open>
  Claim C8, as amended. Take a call that is not in fast-fail mode and an attempt \<open>j\<close> of it
  whose response is retryable (status of 500 or more, or 429, within the body limit) and
  carries a non-empty \<open>Retry-After\<close> value. The backoff started after this attempt is
  the value read as a number of seconds when \<open>ParseUint\<close> gives a number other than
  0, else the time from now to the value read as an HTTP date when that date is later
  than now, in both cases cut at \<open>baseBackoff * maxRetries\<close>, which is 10 s; a value of 0
  seconds, a date that is not later than now and a value that is neither give the
  exponential backoff \<open>baseBackoff * 2 ^ (j + 1)\<close>. For \<open>Retry-After: 2\<close> the backoff is
  exactly 2 s.
\<close>

theorem retry_after_sets_backoff:
  assumes call: "DoSigned c env r sign = ((rsp, err), c', fx)"
    and j: "j < attempts fx"
    and raw: "RoundTrip env j r = Inr raw"
    and ok: "\<not> ContentLength raw > bodyMax c"
    and status: "\<not> (StatusCode raw < 500 \<and> StatusCode raw \<noteq> StatusTooManyRequests)"
    and after: "Header_Get (Header raw) ''Retry-After'' = after" "after \<noteq> []"
    and noff: "\<not> IsFastfail r" "\<not> cache_Has (badHosts c) (Hostname r)"
  shows "j < length (waits fx)
     \<and> waits fx ! j =
         (if ParseUint after \<noteq> 0
          then min (ParseUint after * Second) (baseBackoff * int maxRetries)
          else if Now env j < ParseTime env after
          then min (Sub (ParseTime env after) (Now env j)) (baseBackoff * int maxRetries)
          else baseBackoff * 2 ^ (j + 1))
     \<and> baseBackoff * int maxRetries = 10 * Second
     \<and> (after = ''2'' \<longrightarrow> waits fx ! j = 2 * Second)"
proof -
  have rt: "retryable c (RoundTrip env j r)" using raw ok status by (simp add: retryable_def)
  have h: "hint (RoundTrip env j r) = after" using raw after by (simp add: hint_def)
  from wait_after_retryable[OF call j rt noff] h after(2)
  have w: "j < length (waits fx)"
    "waits fx ! j = (if retry_after env j after = 0 then baseBackoff * 2 ^ (j + 1)
                     else retry_after env j after)"
    by (simp_all add: Let_def)
  have v: "waits fx ! j =
         (if ParseUint after \<noteq> 0
          then min (ParseUint after * Second) (baseBackoff * int maxRetries)
          else if Now env j < ParseTime env after
          then min (Sub (ParseTime env after) (Now env j)) (baseBackoff * int maxRetries)
          else baseBackoff * 2 ^ (j + 1))"
    unfolding w(2) using retry_after_zero_iff[of env j after]
    by (auto simp: retry_after_value)
  have two: "ParseUint ''2'' = 2" by (simp add: ParseUint_def digit_def maxVal_def)
  have "waits fx ! j = 2 * Second" if "after = ''2''"
    unfolding v using that two by (simp add: baseBackoff_def maxRetries_def Second_def)
  with w(1) v show ?thesis by (simp add: baseBackoff_def maxRetries_def)
qed

lemma ex_503_retryable: "2 \<le> bodyMax c \<Longrightarrow> retryable c (RoundTrip (ex_env (\<lambda>n r. Inr (ex_503 a))) j q)"
  by (simp add: retryable_def ex_env_def ex_503_def ex_rsp_def StatusTooManyRequests_def)

lemma ex_503_hint: "hint (RoundTrip (ex_env (\<lambda>n r. Inr (ex_503 a))) j q) = a"
  by (simp add: hint_def ex_env_def ex_503_def ex_rsp_def Header_Get_def)

lemma ex_client_bodyMax: "bodyMax ex_client = 4"
  by (simp add: ex_client_def New_def)

lemma ex_no_fastfail:
  "\<not> IsFastfail ex_req" "\<not> cache_Has (badHosts ex_client) (Hostname ex_req)"
  by (simp_all add: ex_req_def ex_client_def New_def cache_Has_def)

theorem retry_after_sets_backoff_witness:
  "waits (snd (snd (DoSigned ex_client (ex_env (\<lambda>n r. Inr (ex_503 ''2''))) ex_req ex_sign))) ! 0
     = 2 * Second"
proof -
  let ?X = "DoSigned ex_client (ex_env (\<lambda>n r. Inr (ex_503 ''2''))) ex_req ex_sign"
  have a: "0 < attempts (snd (snd ?X))"
    by (rule DoSigned_first_attempt[OF call_split]) (simp add: ex_env_def)
  from retry_after_sets_backoff[OF call_split a, of "ex_503 ''2''" "''2''"] ex_no_fastfail
  show ?thesis
    by (simp add: ex_env_def ex_503_def ex_rsp_def ex_client_bodyMax Header_Get_def
        StatusTooManyRequests_def)
qed

text \<open>
  Claim C8 as stated fails for \<open>Retry-After: 0\<close>: the header reads as 0 seconds, and the
  wait after the first attempt is the exponential one, 4 s.
\<close>

theorem retry_after_zero_counterexample:
  "Header_Get (Header (ex_503 ''0'')) ''Retry-After'' = ''0''
   \<and> ParseUint ''0'' = 0
   \<and> waits (snd (snd (DoSigned ex_client (ex_env (\<lambda>n r. Inr (ex_503 ''0''))) ex_req ex_sign))) ! 0
       = 4 * Second"
proof -
  let ?X = "DoSigned ex_client (ex_env (\<lambda>n r. Inr (ex_503 ''0''))) ex_req ex_sign"
  have a: "0 < attempts (snd (snd ?X))"
    by (rule DoSigned_first_attempt[OF call_split]) (simp add: ex_env_def)
  have z: "ParseUint ''0'' = 0" by (simp add: ParseUint_def digit_def maxVal_def)
  have r: "retry_after (ex_env (\<lambda>n r. Inr (ex_503 ''0''))) 0 ''0'' = 0"
    by (simp add: retry_after_zero_iff z) (simp add: ex_env_def ex_past_date_def Second_def)
  from wait_after_retryable[OF call_split a ex_503_retryable ex_no_fastfail]
  have "waits (snd (snd ?X)) ! 0 = 4 * Second"
    by (simp add: ex_client_bodyMax ex_503_hint r baseBackoff_def)
  then show ?thesis using z
    by (simp add: ex_503_def ex_rsp_def Header_Get_def)
qed

text \<open>
  Claim C9, as amended. Take a call that is not in fast-fail mode and an attempt \<open>j\<close> of it
  whose response is retryable and carries a \<open>Retry-After\<close> value that is no number and
  reads as an HTTP date before now. The header is then left aside: the backoff started
  after this attempt is the exponential one, \<open>baseBackoff * 2 ^ (j + 1)\<close>, which is
  positive; the retry is not immediate.
\<close>

theorem past_retry_after_date_ignored:
  assumes call: "DoSigned c env r sign = ((rsp, err), c', fx)"
    and j: "j < attempts fx"
    and raw: "RoundTrip env j r = Inr raw"
    and ok: "\<not> ContentLength raw > bodyMax c"
    and status: "\<not> (StatusCode raw < 500 \<and> StatusCode raw \<noteq> StatusTooManyRequests)"
    and after: "Header_Get (Header raw) ''Retry-After'' = after" "after \<noteq> []"
    and date: "ParseUint after = 0" "ParseTime env after < Now env j"
    and noff: "\<not> IsFastfail r" "\<not> cache_Has (badHosts c) (Hostname r)"
  shows "j < length (waits fx) \<and> waits fx ! j = baseBackoff * 2 ^ (j + 1)
     \<and> 0 < waits fx ! j"
proof -
  have rt: "retryable c (RoundTrip env j r)" using raw ok status by (simp add: retryable_def)
  have h: "hint (RoundTrip env j r) = after" using raw after by (simp add: hint_def)
  have z: "retry_after env j after = 0" using date by (simp add: retry_after_zero_iff)
  from wait_after_retryable[OF call j rt noff] h after(2) z
  have "j < length (waits fx)" "waits fx ! j = baseBackoff * 2 ^ (j + 1)"
    by (simp_all add: Let_def)
  then show ?thesis by (simp add: baseBackoff_def Second_def)
qed

lemma ex_past_date_parse:
  "ParseUint ex_past_date = 0"
  "ParseTime (ex_env rt) ex_past_date < Now (ex_env rt) j"
  by (simp_all add: ParseUint_def ex_past_date_def digit_def ex_env_def Second_def)

theorem past_retry_after_date_ignored_witness:
  "waits (snd (snd (DoSigned ex_client (ex_env (\<lambda>n r. Inr (ex_503 ex_past_date))) ex_req ex_sign))) ! 0
     = baseBackoff * 2 ^ 1"
proof -
  let ?X = "DoSigned ex_client (ex_env (\<lambda>n r. Inr (ex_503 ex_past_date))) ex_req ex_sign"
  have a: "0 < attempts (snd (snd ?X))"
    by (rule DoSigned_first_attempt[OF call_split]) (simp add: ex_env_def)
  have ne: "ex_past_date \<noteq> []" by (simp add: ex_past_date_def)
  have raw: "RoundTrip (ex_env (\<lambda>n r. Inr (ex_503 ex_past_date))) 0 ex_req
      = Inr (ex_503 ex_past_date)" by (simp add: ex_env_def)
  have hd: "Header_Get (Header (ex_503 ex_past_date)) ''Retry-After'' = ex_past_date"
    using ne by (simp add: ex_503_def ex_rsp_def Header_Get_def)
  have ok: "\<not> ContentLength (ex_503 ex_past_date) > bodyMax ex_client"
    "\<not> (StatusCode (ex_503 ex_past_date) < 500
        \<and> StatusCode (ex_503 ex_past_date) \<noteq> StatusTooManyRequests)"
    by (simp_all add: ex_503_def ex_rsp_def ex_client_bodyMax)
  from past_retry_after_date_ignored[OF call_split a raw ok hd ne ex_past_date_parse ex_no_fastfail]
  show ?thesis by simp
qed

text \<open>
  Claim C9 as stated fails for a 503 whose \<open>Retry-After\<close> is a date of 2015 on a clock of
  2023: the wait after the first attempt is 4 s, not zero.
\<close>

theorem past_retry_after_date_counterexample:
  "Header_Get (Header (ex_503 ex_past_date)) ''Retry-After'' = ex_past_date
   \<and> ParseTime (ex_env (\<lambda>n r. Inr (ex_503 ex_past_date))) ex_past_date
       < Now (ex_env (\<lambda>n r. Inr (ex_503 ex_past_date))) 0
   \<and> waits (snd (snd (DoSigned ex_client (ex_env (\<lambda>n r. Inr (ex_503 ex_past_date))) ex_req ex_sign))) ! 0
       = 4 * Second
   \<and> 4 * Second \<noteq> 0"
proof -
  let ?X = "DoSigned ex_client (ex_env (\<lambda>n r. Inr (ex_503 ex_past_date))) ex_req ex_sign"
  have a: "0 < attempts (snd (snd ?X))"
    by (rule DoSigned_first_attempt[OF call_split]) (simp add: ex_env_def)
  have ne: "ex_past_date \<noteq> []" by (simp add: ex_past_date_def)
  have r: "retry_after (ex_env (\<lambda>n r. Inr (ex_503 ex_past_date))) 0 ex_past_date = 0"
    using ex_past_date_parse(1)
      ex_past_date_parse(2)[of "\<lambda>n r. Inr (ex_503 ex_past_date)" 0]
    by (simp add: retry_after_zero_iff)
  from wait_after_retryable[OF call_split a ex_503_retryable ex_no_fastfail]
  have "waits (snd (snd ?X)) ! 0 = 4 * Second"
    by (simp add: ex_client_bodyMax ex_503_hint r ne baseBackoff_def)
  then show ?thesis using ne ex_past_date_parse(2)
    by (simp add: ex_503_def ex_rsp_def Header_Get_def Second_def)
qed

lemma New_bodyMax_pos: "0 < bodyMax (New cfg)"
  by (simp add: New_def MiB_def)

section \<open>Bodies of unknown length\<close>

text \<open>
  Claim C10. For a client made by \<open>New\<close> and a round trip that gives a response with a
  negative (unknown) declared content length, \<open>do\<close> returns the response, changed only
  in its body, and never \<open>ErrBodyTooLarge\<close>. When the stream holds more than the
  maximum body size, reading the returned body to the end gives exactly the first
  \<open>bodyMax\<close> bytes and no error, and every later read gives \<open>EOF\<close>: the rest is cut off
  silently.
\<close>

theorem unknown_length_truncated:
  assumes raw: "RoundTrip env (attempts fx) r = Inr raw"
    and unknown: "ContentLength raw < 0"
  shows "\<exists>rsp. do (New cfg) env r fx = (Inr rsp, fx\<lparr>attempts := attempts fx + 1\<rparr>)
     \<and> rsp = with_Body raw \<lparr>limit_N = bodyMax (New cfg), limit_R = Body raw\<rparr>
     \<and> (\<not> closed (Body raw) \<and> bodyMax (New cfg) < int (length (unread (Body raw)))
          \<longrightarrow> (\<exists>l'. ReadAll (Body rsp) []
                      = (take (nat (bodyMax (New cfg))) (unread (Body raw)), None, l')
                 \<and> int (length (take (nat (bodyMax (New cfg))) (unread (Body raw))))
                      = bodyMax (New cfg)
                 \<and> (\<forall>k. limited_Read l' k = ([], Some EOF, l'))))"
proof -
  let ?m = "bodyMax (New cfg)"
  let ?b = "\<lparr>limit_N = ?m, limit_R = Body raw\<rparr>"
  have pos: "0 < ?m" by (rule New_bodyMax_pos)
  have d: "do (New cfg) env r fx = (Inr (with_Body raw ?b), fx\<lparr>attempts := attempts fx + 1\<rparr>)"
    using raw unknown pos by (simp add: do_def with_Body_def Let_def)
  have rd: "\<exists>l'. ReadAll ?b [] = (take (nat ?m) (unread (Body raw)), None, l')
                 \<and> int (length (take (nat ?m) (unread (Body raw)))) = ?m
                 \<and> (\<forall>k. limited_Read l' k = ([], Some EOF, l'))"
    if fresh: "\<not> closed (Body raw)" and long: "?m < int (length (unread (Body raw)))"
  proof -
    from long pos have mn: "min (nat ?m) (length (unread (Body raw))) = nat ?m" by simp
    let ?l = "\<lparr>limit_N = ?m - int (min (nat ?m) (length (unread (Body raw)))),
       limit_R = (Body raw)\<lparr>unread := drop (nat ?m) (unread (Body raw))\<rparr>\<rparr>"
    have "ReadAll ?b [] = (take (nat ?m) (unread (Body raw)), None, ?l)"
      using ReadAll_open[of ?b "[]"] fresh by simp
    moreover have "limit_N ?l = 0" using pos by (simp add: mn)
    then have "\<forall>k. limited_Read ?l k = ([], Some EOF, ?l)"
      by (simp add: limited_Read_def)
    moreover have "int (length (take (nat ?m) (unread (Body raw)))) = ?m"
      using pos long by (simp add: min_def)
    ultimately show ?thesis by blast
  qed
  have body: "Body (with_Body raw ?b) = ?b" by (simp add: with_Body_def)
  show ?thesis
  proof (intro exI[of _ "with_Body raw ?b"] conjI impI)
    show "do (New cfg) env r fx = (Inr (with_Body raw ?b), fx\<lparr>attempts := attempts fx + 1\<rparr>)"
      by (rule d)
    show "with_Body raw ?b = with_Body raw ?b" ..
    assume "\<not> closed (Body raw) \<and> ?m < int (length (unread (Body raw)))"
    then show "\<exists>l'. ReadAll (Body (with_Body raw ?b)) []
                      = (take (nat ?m) (unread (Body raw)), None, l')
                 \<and> int (length (take (nat ?m) (unread (Body raw)))) = ?m
                 \<and> (\<forall>k. limited_Read l' k = ([], Some EOF, l'))"
      unfolding body using rd by blast
  qed
qed

theorem unknown_length_truncated_witness:
  "fst (do ex_client (ex_env (\<lambda>n r. Inr ex_200_unknown)) ex_req no_effects)
     = Inr (with_Body ex_200_unknown \<lparr>limit_N = 4, limit_R = Body ex_200_unknown\<rparr>)
   \<and> (\<exists>l'. ReadAll \<lparr>limit_N = 4, limit_R = Body ex_200_unknown\<rparr> [] = ([1, 2, 3, 4], None, l')
         \<and> limited_Read l' 512 = ([], Some EOF, l'))"
proof -
  have raw: "RoundTrip (ex_env (\<lambda>n r. Inr ex_200_unknown)) (attempts no_effects) ex_req
      = Inr ex_200_unknown" by (simp add: ex_env_def)
  have u: "ContentLength ex_200_unknown < 0" by (simp add: ex_200_unknown_def ex_rsp_def)
  from unknown_length_truncated[OF raw u, of "\<lparr>MaxBodySize = 4\<rparr>"]
  show ?thesis
    by (auto simp: ex_client_def New_def ex_200_unknown_def ex_rsp_def with_Body_def)
qed

section \<open>The signer\<close>

text \<open>
  Claim C5 says that \<open>DoSigned\<close> calls its argument \<open>sign\<close> on the request before each
  transmission. The body of \<open>DoSigned\<close> never mentions \<open>sign\<close>: for a server that answers
  401 to a request without a \<open>Signature\<close> header and 200 to one that carries it, and a
  signer that sets this header, the call sends the request as it came and returns the
  401 response, although the signed request would have received 200. For every signer
  \<open>DoSigned\<close> does what \<open>Do\<close> does.
\<close>

theorem sign_argument_unused:
  "fst (DoSigned ex_client (ex_env ex_needs_signature) ex_req ex_sign)
     = (Some (with_Body ex_401 \<lparr>limit_N = 0, limit_R = Body ex_401\<rparr>), None)
   \<and> RoundTrip (ex_env ex_needs_signature) 0 (fst (ex_sign ex_req)) = Inr ex_200
   \<and> DoSigned c env r sign = Do c env r"
proof -
  have "iteration ex_client (ex_env ex_needs_signature) ex_req
      (IsFastfail ex_req \<or> cache_Has (badHosts ex_client) (Hostname ex_req)) 0 no_effects
      = (Return (Some (with_Body ex_401
        \<lparr>limit_N = (if ContentLength ex_401 < 0 then bodyMax ex_client else ContentLength ex_401),
         limit_R = Body ex_401\<rparr>)) None, no_effects\<lparr>attempts := attempts no_effects + 1\<rparr>)"
    by (rule iteration_success)
       (simp_all add: ex_env_def ex_needs_signature_def ex_req_def ex_401_def ex_rsp_def
          ex_client_def New_def StatusTooManyRequests_def no_effects_def)
  from DoSigned_first_return[OF _ this, of ex_sign]
  have "fst (DoSigned ex_client (ex_env ex_needs_signature) ex_req ex_sign)
     = (Some (with_Body ex_401 \<lparr>limit_N = 0, limit_R = Body ex_401\<rparr>), None)"
    by (simp add: ex_env_def) (simp add: ex_401_def ex_rsp_def)
  moreover have "RoundTrip (ex_env ex_needs_signature) 0 (fst (ex_sign ex_req)) = Inr ex_200"
    by (simp add: ex_env_def ex_needs_signature_def ex_sign_def)
  moreover have "DoSigned c env r sign = Do c env r"
    by (simp add: Do_def DoSigned_def)
  ultimately show ?thesis by simp
qed

end
